theory Spec2Isabelle
  imports Main
begin

section \<open>Values, promises and socket events\<close>

text \<open>
  The JavaScript values that reach the code under study: \<open>undefined\<close>, \<open>null\<close>,
  numbers (only integers occur: the protocol version and the settings) and strings.
  A string is a list of bytes, the UTF-8 text that goes over the socket.
\<close>

datatype jsval = JUndefined | JNull | JNum int | JStr string

text \<open>
  What a promise is rejected with (or what is thrown): a plain string such as
  \<open>NO_CONNECTION\<close> or the server's response, the error object a socket emitted
  (named by its message), the \<open>TypeError\<close> of a property access through
  \<open>undefined\<close>, and the failures of the pool.
\<close>

datatype reason =
    Text string
  | TransportError string
  | TypeError string
  | AcquireTimeout
  | PoolClosed

text \<open>A promise settles once: \<open>resolve\<close> and \<open>reject\<close> on a settled promise do nothing.\<close>

datatype 'a promise = Pending | Resolved 'a | Rejected reason

definition resolve :: "'a \<Rightarrow> 'a promise \<Rightarrow> 'a promise" where
  "resolve v p = (case p of Pending \<Rightarrow> Resolved v | _ \<Rightarrow> p)"

definition reject :: "reason \<Rightarrow> 'a promise \<Rightarrow> 'a promise" where
  "reject e p = (case p of Pending \<Rightarrow> Rejected e | _ \<Rightarrow> p)"

text \<open>
  The events a TLS socket emits, in the order the event loop delivers them:
  the end of the handshake with the value of \<open>socket.authorized\<close>, a chunk of data,
  an error, and the peer's end of transmission.
\<close>

datatype event = SecureConnect bool | Data string | Error string | End

section \<open>Connection.js\<close>

definition NO_CONNECTION :: string where
  "NO_CONNECTION = ''No connection to destroy''"

definition UNAUTHORIZED_CONNECTION :: string where
  "UNAUTHORIZED_CONNECTION = ''Secure connection could not be established''"

text \<open>
  The socket as far as the class uses it: the flag the handshake sets, the encoding
  chosen by \<open>setEncoding\<close>, what \<open>socket.write\<close> was given, and whether
  \<open>socket.end()\<close> was called.
\<close>

record tls_socket =
  authorized :: bool
  socket_encoding :: "string option"
  written :: "string list"
  end_requested :: bool

record connection =
  eot :: string
  uri :: string
  port :: nat
  socket :: "tls_socket option"
  encoding :: string
  socketID :: string

text \<open>The constructor; \<open>sid\<close> is the value of \<open>shortid.generate()\<close>.\<close>

definition Connection :: "string \<Rightarrow> string \<Rightarrow> connection" where
  "Connection client sid =
     \<lparr> eot = [CHR 0x04],
       uri = ''api.vndb.org'',
       port = 19535,
       socket = None,
       encoding = ''utf8'',
       socketID = ''vndbjs-'' @ client @ ''-'' @ sid \<rparr>"

text \<open>\<open>String.prototype.endsWith\<close>.\<close>

definition endsWith :: "string \<Rightarrow> string \<Rightarrow> bool" where
  "endsWith s suffix =
     (length suffix \<le> length s \<and> drop (length s - length suffix) s = suffix)"

subsection \<open>write\<close>

text \<open>
  \<open>this.socket.write(`${message}${this.eot}`)\<close>. With no socket the property access
  throws.
\<close>

definition write_conn :: "string \<Rightarrow> connection \<Rightarrow> reason + connection" where
  "write_conn message c =
     (case socket c of
        None \<Rightarrow> Inl (TypeError ''write'')
      | Some s \<Rightarrow> Inr (c\<lparr>socket := Some (s\<lparr>written := written s @ [message @ eot c]\<rparr>)\<rparr>))"

subsection \<open>read\<close>

text \<open>
  The state of one call of \<open>read\<close>: its promise, the local variable \<open>chunk\<close>, and
  whether the \<open>error\<close> listener (registered with \<open>once\<close>) and the \<open>data\<close> listener
  (registered with \<open>on\<close>) are still attached.
\<close>

record reading =
  outcome :: "string promise"
  chunk :: string
  error_listener :: bool
  data_listener :: bool

text \<open>
  One event. A chunk is appended; when the text then ends with \<open>eot\<close> both listeners are
  removed and the promise resolved. An error rejects and detaches its own listener only.
  An event with no listener leaves the call as it is.
\<close>

fun read_event :: "string \<Rightarrow> reading \<Rightarrow> event \<Rightarrow> reading" where
  "read_event t r (Data d) =
     (if data_listener r then
        (let chunk' = chunk r @ d in
         if endsWith chunk' t
         then r\<lparr>chunk := chunk', error_listener := False, data_listener := False,
                outcome := resolve chunk' (outcome r)\<rparr>
         else r\<lparr>chunk := chunk'\<rparr>)
      else r)"
| "read_event t r (Error e) =
     (if error_listener r
      then r\<lparr>error_listener := False, outcome := reject (TransportError e) (outcome r)\<rparr>
      else r)"
| "read_event t r _ = r"

definition read_start :: reading where
  "read_start = \<lparr> outcome = Pending, chunk = [], error_listener = True, data_listener = True \<rparr>"

text \<open>
  \<open>read\<close> on a connection, given the events that follow the call. With no socket
  the executor throws at \<open>this.socket.once\<close>, which rejects the promise.
\<close>

definition read :: "connection \<Rightarrow> event list \<Rightarrow> string promise" where
  "read c evs =
     (case socket c of
        None \<Rightarrow> Rejected (TypeError ''once'')
      | Some s \<Rightarrow> outcome (foldl (read_event (eot c)) read_start evs))"

text \<open>
  For the statements about \<open>read\<close>: the accumulated text after the first chunk that
  makes it end with \<open>t\<close>, when the chunks \<open>cs\<close> are appended to \<open>acc\<close> one by one.
\<close>

fun first_frame :: "string \<Rightarrow> string \<Rightarrow> string list \<Rightarrow> string option" where
  "first_frame t acc [] = None"
| "first_frame t acc (d # ds) =
     (if endsWith (acc @ d) t then Some (acc @ d) else first_frame t (acc @ d) ds)"

subsection \<open>connect\<close>

text \<open>
  The state of one call of \<open>connect\<close>: its promise, the socket returned by
  \<open>tls.connect\<close>, and whether the \<open>error\<close> listener (registered with \<open>once\<close>) and
  the callback given to \<open>tls.connect\<close> (a one-time \<open>secureConnect\<close> listener) are
  still attached.
\<close>

record connecting =
  settled :: "string promise"
  sock :: tls_socket
  on_error :: bool
  on_secureConnect :: bool

text \<open>
  The callback removes the \<open>error\<close> listeners, then resolves with \<open>'ok'\<close> when the
  socket is authorized (after setting the encoding) and rejects with
  \<open>UNAUTHORIZED_CONNECTION\<close> otherwise. The \<open>error\<close> listener rejects with the error
  it is given.
\<close>

fun connect_event :: "string \<Rightarrow> connecting \<Rightarrow> event \<Rightarrow> connecting" where
  "connect_event enc k (SecureConnect a) =
     (if on_secureConnect k then
        (if a
         then k\<lparr>sock := (sock k)\<lparr>authorized := a, socket_encoding := Some enc\<rparr>,
                on_error := False, on_secureConnect := False,
                settled := resolve ''ok'' (settled k)\<rparr>
         else k\<lparr>sock := (sock k)\<lparr>authorized := a\<rparr>,
                on_error := False, on_secureConnect := False,
                settled := reject (Text UNAUTHORIZED_CONNECTION) (settled k)\<rparr>)
      else k)"
| "connect_event enc k (Error e) =
     (if on_error k
      then k\<lparr>on_error := False, settled := reject (TransportError e) (settled k)\<rparr>
      else k)"
| "connect_event enc k _ = k"

definition connect_start :: connecting where
  "connect_start =
     \<lparr> settled = Pending,
       sock = \<lparr> authorized = False, socket_encoding = None, written = [], end_requested = False \<rparr>,
       on_error = True,
       on_secureConnect = True \<rparr>"

text \<open>
  \<open>connect\<close>, given the events that follow the call: the promise and the connection,
  whose \<open>socket\<close> is assigned as soon as \<open>tls.connect\<close> returns.
\<close>

definition connect :: "event list \<Rightarrow> connection \<Rightarrow> string promise \<times> connection" where
  "connect evs c =
     (let k = foldl (connect_event (encoding c)) connect_start evs
      in (settled k, c\<lparr>socket := Some (sock k)\<rparr>))"

subsection \<open>destroy\<close>

text \<open>The \<open>end\<close> listener (registered with \<open>once\<close>) resolves with \<open>'ok'\<close>.\<close>

fun destroy_event :: "string promise \<times> bool \<Rightarrow> event \<Rightarrow> string promise \<times> bool" where
  "destroy_event (p, on_end) End = (if on_end then (resolve ''ok'' p, False) else (p, on_end))"
| "destroy_event (p, on_end) _ = (p, on_end)"

text \<open>
  \<open>destroy\<close>, given the events that follow the call. There is no \<open>return\<close> after
  \<open>reject(NO_CONNECTION)\<close>: with no socket the executor goes on to
  \<open>this.socket.once\<close>, which throws, and the promise constructor rejects with that
  \<open>TypeError\<close>, on a promise that is settled already.
\<close>

definition destroy :: "event list \<Rightarrow> connection \<Rightarrow> string promise \<times> connection" where
  "destroy evs c =
     (let p = (if socket c = None then reject (Text NO_CONNECTION) Pending else Pending)
      in case socket c of
           None \<Rightarrow> (reject (TypeError ''once'') p, c)
         | Some s \<Rightarrow>
             (fst (foldl destroy_event (p, True) evs),
              c\<lparr>socket := Some (s\<lparr>end_requested := True\<rparr>)\<rparr>))"

subsection \<open>login\<close>

text \<open>
  \<open>JSON.stringify\<close> as \<open>login\<close> uses it: on an object whose property values are
  \<open>undefined\<close>, \<open>null\<close>, numbers and strings, with a replacer function. A string is
  quoted with the escapes of the standard: the quotation mark, the backslash, the five
  named control characters, and \<open>\u00XX\<close> for the other characters below 0x20.
\<close>

definition hex_digit :: "nat \<Rightarrow> char" where
  "hex_digit n = ''0123456789abcdef'' ! (n mod 16)"

definition quote_char :: "char \<Rightarrow> string" where
  "quote_char ch =
     (if ch = CHR 0x22 then [CHR 0x5C, CHR 0x22]
      else if ch = CHR 0x5C then [CHR 0x5C, CHR 0x5C]
      else if ch = CHR 0x08 then [CHR 0x5C, CHR ''b'']
      else if ch = CHR 0x0C then [CHR 0x5C, CHR ''f'']
      else if ch = CHR 0x0A then [CHR 0x5C, CHR ''n'']
      else if ch = CHR 0x0D then [CHR 0x5C, CHR ''r'']
      else if ch = CHR 0x09 then [CHR 0x5C, CHR ''t'']
      else if (of_char ch :: nat) < 32
        then [CHR 0x5C, CHR ''u'', CHR ''0'', CHR ''0'',
              hex_digit (of_char ch div 16), hex_digit (of_char ch)]
      else [ch])"

definition JSON_quote :: "string \<Rightarrow> string" where
  "JSON_quote s = [CHR 0x22] @ concat (map quote_char s) @ [CHR 0x22]"

text \<open>A whole number in decimal, as \<open>Number.prototype.toString\<close> prints it.\<close>

fun show_nat :: "nat \<Rightarrow> string" where
  "show_nat n =
     (if n < 10 then [''0123456789'' ! n]
      else show_nat (n div 10) @ [''0123456789'' ! (n mod 10)])"

definition show_int :: "int \<Rightarrow> string" where
  "show_int i = (if i < 0 then ''-'' @ show_nat (nat (- i)) else show_nat (nat i))"

text \<open>
  The text of a property value, or nothing for \<open>undefined\<close>, in which case the
  property is left out of the object.
\<close>

fun serialize_property :: "jsval \<Rightarrow> string option" where
  "serialize_property JUndefined = None"
| "serialize_property JNull = Some ''null''"
| "serialize_property (JNum n) = Some (show_int n)"
| "serialize_property (JStr s) = Some (JSON_quote s)"

fun join :: "string \<Rightarrow> string list \<Rightarrow> string" where
  "join sep [] = []"
| "join sep [x] = x"
| "join sep (x # y # ys) = x @ sep @ join sep (y # ys)"

text \<open>
  The object is the list of its properties in creation order. The replacer is applied
  to every property before it is serialized. (It is also applied to the object itself,
  under the empty key; the replacer of \<open>login\<close> returns it unchanged, as it is not
  \<open>null\<close>.)
\<close>

definition JSON_stringify :: "(string \<times> jsval) list \<Rightarrow> (string \<Rightarrow> jsval \<Rightarrow> jsval) \<Rightarrow> string" where
  "JSON_stringify obj rep =
     ''{'' @
     join '','' (List.map_filter
       (\<lambda>(key, v). map_option (\<lambda>text. JSON_quote key @ '':'' @ text)
                     (serialize_property (rep key v))) obj)
     @ ''}''"

definition replacer :: "string \<Rightarrow> jsval \<Rightarrow> jsval" where
  "replacer key v = (if v = JNull then JUndefined else v)"

text \<open>
  The object \<open>data\<close> of \<open>login\<close>; \<open>version\<close> is the version string of
  \<open>package.json\<close>.
\<close>

definition login_data :: "connection \<Rightarrow> string \<Rightarrow> jsval \<Rightarrow> jsval \<Rightarrow> (string \<times> jsval) list" where
  "login_data c version username password =
     [(''protocol'', JNum 1),
      (''client'', JStr (socketID c)),
      (''clientver'', JStr version),
      (''username'', username),
      (''password'', password)]"

text \<open>
  \<open>login\<close>, given the events that follow the call. The executor is an async function:
  when \<open>this.write\<close> throws (no socket), its own promise is rejected and the promise
  of \<open>login\<close> is never settled.
\<close>

definition login ::
  "jsval \<Rightarrow> jsval \<Rightarrow> string \<Rightarrow> event list \<Rightarrow> connection \<Rightarrow> string promise \<times> connection" where
  "login username password version evs c =
     (let data = login_data c version username password
      in case write_conn (''login '' @ JSON_stringify data replacer) c of
           Inl e \<Rightarrow> (Pending, c)
         | Inr c' \<Rightarrow>
             (case read c' evs of
                Resolved response \<Rightarrow>
                  if response = ''ok'' @ eot c'
                  then (resolve response Pending, c')
                  else (reject (Text response) Pending, c')
              | Rejected err \<Rightarrow> (reject err Pending, c')
              | Pending \<Rightarrow> (Pending, c')))"

section \<open>Vndb\<close>

subsection \<open>The constructor\<close>

text \<open>
  An object is read through its properties: a property the object does not have reads
  as \<open>undefined\<close>.
\<close>

type_synonym object = "string \<Rightarrow> jsval"

definition empty_object :: object where
  "empty_object = (\<lambda>key. JUndefined)"

definition defaultSettings :: "(string \<times> jsval) list" where
  "defaultSettings =
     [(''rateLimit'', JNum 20),
      (''rateInterval'', JNum 60000),
      (''password'', JNull),
      (''poolMin'', JNum 1),
      (''poolTimeout'', JNum 30000),
      (''username'', JNull)]"

text \<open>
  Modelled from the spec: the helper \<open>defaults\<close> (the package \<open>defaults-shallow\<close>, which is
  not among the sources). The constructor's documentation gives every setting as optional,
  with a default value: a property that reads as \<open>undefined\<close> in the settings takes the
  value it has in the defaults, every other property stays as it is.
\<close>

fun defaults :: "object \<Rightarrow> (string \<times> jsval) list \<Rightarrow> object" where
  "defaults obj [] = obj"
| "defaults obj ((key, v) # rest) =
     defaults (if obj key = JUndefined then obj(key := v) else obj) rest"

record pool_config =
  min_cfg :: jsval
  max_cfg :: nat
  evictionRunIntervalMillis :: nat
  numTestsPerRun :: nat
  softIdleTimeoutMillis :: jsval
  idleTimeoutMillis :: nat
  acquireTimeoutMillis :: nat

text \<open>
  The fields of a \<open>Vndb\<close> that are data; \<open>limiter\<close> holds the two arguments the
  \<open>RateLimiter\<close> is constructed with. The pool is part of the state below.
\<close>

record vndb =
  clientName :: string
  rateLimit :: jsval
  rateInterval :: jsval
  password :: jsval
  username :: jsval
  poolConfig :: pool_config
  limiter :: "jsval \<times> jsval"

text \<open>
  The constructor. The parameter \<open>settings\<close> has the default value \<open>{}\<close>, used when
  the argument is left out (\<open>None\<close>).
\<close>

definition Vndb :: "string \<Rightarrow> object option \<Rightarrow> vndb" where
  "Vndb name arg =
     (let settings = defaults (case arg of None \<Rightarrow> empty_object | Some obj \<Rightarrow> obj) defaultSettings
      in \<lparr> clientName = name,
           rateLimit = settings ''rateLimit'',
           rateInterval = settings ''rateInterval'',
           password = settings ''password'',
           username = settings ''username'',
           poolConfig =
             \<lparr> min_cfg = settings ''poolMin'',
               max_cfg = 10,
               evictionRunIntervalMillis = 1000,
               numTestsPerRun = 10,
               softIdleTimeoutMillis = settings ''poolTimeout'',
               idleTimeoutMillis = 0,
               acquireTimeoutMillis = 2000 \<rparr>,
           limiter = (settings ''rateLimit'', settings ''rateInterval'') \<rparr>)"

subsection \<open>The pool\<close>

text \<open>
  Modelled from the spec: the Pool (the package \<open>generic-pool\<close>, which is not among the
  sources; the constructor only calls its \<open>createPool\<close> with a factory of two functions,
  \<open>create\<close> and \<open>destroy\<close>, and \<open>send\<close> calls its \<open>acquire\<close> and \<open>release\<close>).
  The pool holds two collections of sessions, idle and in use, and is unusable once
  drained. A session is whatever identifies it; for \<open>Vndb\<close> it is the reference to a
  \<open>Connection\<close> object.
\<close>

record 's pool =
  idle :: "'s list"
  in_use :: "'s list"
  closed :: bool

definition pool_start :: "'s pool" where
  "pool_start = \<lparr> idle = [], in_use = [], closed = False \<rparr>"

definition pool_size :: "'s pool \<Rightarrow> nat" where
  "pool_size p = length (idle p) + length (in_use p)"

text \<open>
  \<open>acquire\<close>: an idle session if one exists; otherwise, below the maximum, a new
  session, \<open>created\<close> being the outcome of the factory's \<open>create\<close> (a failure is
  passed on and the session does not count); otherwise the caller waits, and with no
  release before the acquire timeout it fails with \<open>AcquireTimeout\<close>.
\<close>

definition pool_acquire :: "nat \<Rightarrow> reason + 's \<Rightarrow> 's pool \<Rightarrow> (reason + 's) \<times> 's pool" where
  "pool_acquire maximum created p =
     (if closed p then (Inl PoolClosed, p)
      else case idle p of
             s # rest \<Rightarrow> (Inr s, p\<lparr>idle := rest, in_use := in_use p @ [s]\<rparr>)
           | [] \<Rightarrow>
               if pool_size p < maximum
               then (case created of
                       Inl e \<Rightarrow> (Inl e, p)
                     | Inr s \<Rightarrow> (Inr s, p\<lparr>in_use := in_use p @ [s]\<rparr>))
               else (Inl AcquireTimeout, p))"

text \<open>
  \<open>release\<close> returns a checked-out session to the idle set. The spec adds that a session
  released in a non-Ready state is destroyed instead, which is \<open>pool_destroy\<close>. Which of
  the two a call of \<open>release\<close> amounts to depends on a session state that the sources do
  not have: \<open>Connection\<close> has no state field, the factory has no function that examines a
  session, and \<open>send\<close> passes the client alone. A session the pool hands out has passed
  \<open>connect\<close> and \<open>login\<close> in \<open>create\<close>, so the call \<open>pool.release(client)\<close> is
  \<open>pool_release\<close>. Releasing a session that is not checked out changes nothing.
\<close>

definition pool_release :: "'s \<Rightarrow> 's pool \<Rightarrow> 's pool" where
  "pool_release s p =
     (if s \<in> set (in_use p)
      then p\<lparr>in_use := remove1 s (in_use p), idle := idle p @ [s]\<rparr>
      else p)"

definition pool_destroy :: "'s \<Rightarrow> 's pool \<Rightarrow> 's pool" where
  "pool_destroy s p = p\<lparr>in_use := remove1 s (in_use p)\<rparr>"

text \<open>
  Background eviction destroys an idle session (one idle for longer than the soft idle
  timeout) unless the pool would drop below the minimum; the background top-up creates
  an idle session while the pool is below the minimum, within the hard cap.
\<close>

definition pool_evict :: "nat \<Rightarrow> 's \<Rightarrow> 's pool \<Rightarrow> 's pool" where
  "pool_evict minimum s p =
     (if s \<in> set (idle p) \<and> minimum < pool_size p
      then p\<lparr>idle := remove1 s (idle p)\<rparr>
      else p)"

definition pool_top_up :: "nat \<Rightarrow> nat \<Rightarrow> 's \<Rightarrow> 's pool \<Rightarrow> 's pool" where
  "pool_top_up minimum maximum s p =
     (if \<not> closed p \<and> pool_size p < minimum \<and> pool_size p < maximum
      then p\<lparr>idle := idle p @ [s]\<rparr>
      else p)"

text \<open>
  \<open>drainAndClear\<close> waits until no session is in use, then destroys every session.
\<close>

definition pool_drain :: "'s pool \<Rightarrow> 's pool" where
  "pool_drain p = (if in_use p = [] then p\<lparr>idle := [], closed := True\<rparr> else p)"

text \<open>
  The states a pool goes through. A session that is created is new: it is not one the
  pool holds already. Only a session that is checked out is released or destroyed.
\<close>

inductive pool_reachable :: "nat \<Rightarrow> nat \<Rightarrow> 's pool \<Rightarrow> bool" for minimum maximum :: nat where
  start: "pool_reachable minimum maximum pool_start"
| acquire:
    "pool_reachable minimum maximum p \<Longrightarrow>
     (\<forall>s. created = Inr s \<longrightarrow> s \<notin> set (idle p) \<union> set (in_use p)) \<Longrightarrow>
     pool_reachable minimum maximum (snd (pool_acquire maximum created p))"
| release:
    "pool_reachable minimum maximum p \<Longrightarrow> s \<in> set (in_use p) \<Longrightarrow>
     pool_reachable minimum maximum (pool_release s p)"
| destroy:
    "pool_reachable minimum maximum p \<Longrightarrow> s \<in> set (in_use p) \<Longrightarrow>
     pool_reachable minimum maximum (pool_destroy s p)"
| evict:
    "pool_reachable minimum maximum p \<Longrightarrow>
     pool_reachable minimum maximum (pool_evict minimum s p)"
| top_up:
    "pool_reachable minimum maximum p \<Longrightarrow> s \<notin> set (idle p) \<union> set (in_use p) \<Longrightarrow>
     pool_reachable minimum maximum (pool_top_up minimum maximum s p)"
| drain:
    "pool_reachable minimum maximum p \<Longrightarrow>
     pool_reachable minimum maximum (pool_drain p)"

subsection \<open>send\<close>

text \<open>
  The state \<open>send\<close> works on: the pool, which holds references, and the
  \<open>Connection\<close> objects the references point to.
\<close>

record vndb_state =
  pool :: "nat pool"
  heap :: "nat \<Rightarrow> connection"

datatype pool_call = Acquire | Release nat

text \<open>
  What one call of \<open>send\<close> leaves behind: its promise, the state, the calls it made on
  the pool in order, and the error that escaped the limiter's callback, if any.
\<close>

record send_result =
  response :: "string promise"
  after :: vndb_state
  calls :: "pool_call list"
  unhandled :: "reason option"

text \<open>
  \<open>send\<close>, given whether the limiter grants the token (it then runs the callback), the
  outcome \<open>created\<close> of the factory's \<open>create\<close> should the pool call it, and the events
  on the client's socket after the write.

  When \<open>acquire\<close> fails the first \<open>catch\<close> rejects and the function goes on with
  \<open>client\<close> undefined: the template literal in the second \<open>try\<close> throws, its
  \<open>catch\<close> rejects a settled promise, and the template literal in \<open>finally\<close> throws
  again, before \<open>release\<close>. When the client was acquired, \<open>write\<close> throwing or \<open>read\<close>
  rejecting leads to \<open>catch\<close> and then \<open>finally\<close>, \<open>read\<close> resolving leads to
  \<open>finally\<close>, and a \<open>read\<close> that never settles leaves the function suspended at
  \<open>await\<close>.
\<close>

definition send ::
  "vndb \<Rightarrow> string \<Rightarrow> bool \<Rightarrow> reason + nat \<Rightarrow> event list \<Rightarrow> vndb_state \<Rightarrow> send_result" where
  "send v message granted created evs st =
     (if \<not> granted
      then \<lparr> response = Pending, after = st, calls = [], unhandled = None \<rparr>
      else case pool_acquire (max_cfg (poolConfig v)) created (pool st) of
        (Inl err, p) \<Rightarrow>
          \<lparr> response = reject (TypeError ''socketID'') (reject err Pending),
            after = st\<lparr>pool := p\<rparr>,
            calls = [Acquire],
            unhandled = Some (TypeError ''socketID'') \<rparr>
      | (Inr client, p) \<Rightarrow>
          (case write_conn message (heap st client) of
             Inl thrown \<Rightarrow>
               \<lparr> response = reject thrown Pending,
                 after = st\<lparr>pool := pool_release client p\<rparr>,
                 calls = [Acquire, Release client],
                 unhandled = None \<rparr>
           | Inr c \<Rightarrow>
               (case read c evs of
                  Pending \<Rightarrow>
                    \<lparr> response = Pending,
                      after = \<lparr> pool = p, heap = (heap st)(client := c) \<rparr>,
                      calls = [Acquire],
                      unhandled = None \<rparr>
                | Resolved text \<Rightarrow>
                    \<lparr> response = resolve text Pending,
                      after = \<lparr> pool = pool_release client p, heap = (heap st)(client := c) \<rparr>,
                      calls = [Acquire, Release client],
                      unhandled = None \<rparr>
                | Rejected err \<Rightarrow>
                    \<lparr> response = reject err Pending,
                      after = \<lparr> pool = pool_release client p, heap = (heap st)(client := c) \<rparr>,
                      calls = [Acquire, Release client],
                      unhandled = None \<rparr>)))"

section \<open>Properties of Connection\<close>

subsection \<open>write and read\<close>

lemma endsWith_single: "endsWith s [x] \<longleftrightarrow> s \<noteq> [] \<and> last s = x"
proof (cases s rule: rev_cases)
  case Nil
  then show ?thesis by (simp add: endsWith_def)
next
  case (snoc ys y)
  then show ?thesis by (simp add: endsWith_def)
qed

lemma read_event_detached:
  "\<not> data_listener r \<Longrightarrow> \<not> error_listener r \<Longrightarrow> foldl (read_event t) r evs = r"
proof (induction evs)
  case Nil
  then show ?case by simp
next
  case (Cons ev evs)
  then show ?case by (cases ev) simp_all
qed

lemma read_data_only:
  "data_listener r \<Longrightarrow> outcome r = Pending \<Longrightarrow>
   outcome (foldl (read_event t) r (map Data cs)) =
     (case first_frame t (chunk r) cs of None \<Rightarrow> Pending | Some f \<Rightarrow> Resolved f)"
proof (induction cs arbitrary: r)
  case Nil
  then show ?case by simp
next
  case (Cons d ds)
  show ?case
  proof (cases "endsWith (chunk r @ d) t")
    case True
    let ?r' = "read_event t r (Data d)"
    from True Cons.prems have "\<not> data_listener ?r'" "\<not> error_listener ?r'"
      "outcome ?r' = Resolved (chunk r @ d)"
      by (simp_all add: Let_def resolve_def)
    then show ?thesis using True by (simp add: read_event_detached del: read_event.simps)
  next
    case False
    let ?r' = "read_event t r (Data d)"
    from False Cons.prems have "data_listener ?r'" "outcome ?r' = Pending" "chunk ?r' = chunk r @ d"
      by (simp_all add: Let_def)
    then show ?thesis using False Cons.IH [of ?r'] by (simp del: read_event.simps)
  qed
qed

lemma first_frame_Some:
  "first_frame t acc cs = Some f \<longleftrightarrow>
     (\<exists>n. 0 < n \<and> n \<le> length cs \<and> f = acc @ concat (take n cs) \<and> endsWith f t \<and>
          (\<forall>k. 0 < k \<and> k < n \<longrightarrow> \<not> endsWith (acc @ concat (take k cs)) t))"
proof (induction cs arbitrary: acc)
  case Nil
  then show ?case by simp
next
  case (Cons d ds)
  show ?case
  proof (cases "endsWith (acc @ d) t")
    case True
    show ?thesis
    proof
      assume "first_frame t acc (d # ds) = Some f"
      with True have f: "f = acc @ d" by simp
      show "\<exists>n. 0 < n \<and> n \<le> length (d # ds) \<and> f = acc @ concat (take n (d # ds)) \<and> endsWith f t \<and>
          (\<forall>k. 0 < k \<and> k < n \<longrightarrow> \<not> endsWith (acc @ concat (take k (d # ds))) t)"
        using True f by (intro exI [of _ 1]) simp
    next
      assume "\<exists>n. 0 < n \<and> n \<le> length (d # ds) \<and> f = acc @ concat (take n (d # ds)) \<and> endsWith f t \<and>
          (\<forall>k. 0 < k \<and> k < n \<longrightarrow> \<not> endsWith (acc @ concat (take k (d # ds))) t)"
      then obtain n where n: "0 < n" "f = acc @ concat (take n (d # ds))"
        "\<forall>k. 0 < k \<and> k < n \<longrightarrow> \<not> endsWith (acc @ concat (take k (d # ds))) t" by blast
      have "n = 1"
      proof (rule ccontr)
        assume "n \<noteq> 1"
        with n(1) have "0 < (1::nat) \<and> 1 < n" by simp
        with n(3) have "\<not> endsWith (acc @ concat (take 1 (d # ds))) t" by blast
        with True show False by simp
      qed
      with n(2) True show "first_frame t acc (d # ds) = Some f" by simp
    qed
  next
    case False
    have "first_frame t acc (d # ds) = Some f \<longleftrightarrow> first_frame t (acc @ d) ds = Some f"
      using False by simp
    also have "\<dots> \<longleftrightarrow> (\<exists>n. 0 < n \<and> n \<le> length ds \<and> f = (acc @ d) @ concat (take n ds) \<and> endsWith f t \<and>
          (\<forall>k. 0 < k \<and> k < n \<longrightarrow> \<not> endsWith ((acc @ d) @ concat (take k ds)) t))"
      by (rule Cons.IH)
    also have "\<dots> \<longleftrightarrow> (\<exists>n. 0 < n \<and> n \<le> length (d # ds) \<and> f = acc @ concat (take n (d # ds)) \<and> endsWith f t \<and>
          (\<forall>k. 0 < k \<and> k < n \<longrightarrow> \<not> endsWith (acc @ concat (take k (d # ds))) t))"
      (is "?L \<longleftrightarrow> ?R")
    proof
      assume ?L
      then obtain n where n: "0 < n" "n \<le> length ds" "f = (acc @ d) @ concat (take n ds)" "endsWith f t"
        "\<forall>k. 0 < k \<and> k < n \<longrightarrow> \<not> endsWith ((acc @ d) @ concat (take k ds)) t" by blast
      have "\<forall>k. 0 < k \<and> k < Suc n \<longrightarrow> \<not> endsWith (acc @ concat (take k (d # ds))) t"
      proof (intro allI impI)
        fix k assume k: "0 < k \<and> k < Suc n"
        then obtain j where j: "k = Suc j" by (cases k) auto
        show "\<not> endsWith (acc @ concat (take k (d # ds))) t"
        proof (cases j)
          case 0
          with j False show ?thesis by simp
        next
          case (Suc i)
          with j k n(5) show ?thesis by simp
        qed
      qed
      with n show ?R by (intro exI [of _ "Suc n"]) simp
    next
      assume ?R
      then obtain n where n: "0 < n" "n \<le> length (d # ds)" "f = acc @ concat (take n (d # ds))" "endsWith f t"
        "\<forall>k. 0 < k \<and> k < n \<longrightarrow> \<not> endsWith (acc @ concat (take k (d # ds))) t" by blast
      from n(1) obtain m where m: "n = Suc m" by (cases n) auto
      have "m \<noteq> 0"
      proof
        assume "m = 0"
        with m n(3,4) have "endsWith (acc @ d) t" by simp
        with False show False by simp
      qed
      have "\<forall>k. 0 < k \<and> k < m \<longrightarrow> \<not> endsWith ((acc @ d) @ concat (take k ds)) t"
      proof (intro allI impI)
        fix k assume "0 < k \<and> k < m"
        then have "0 < Suc k \<and> Suc k < n" using m by simp
        with n(5) have "\<not> endsWith (acc @ concat (take (Suc k) (d # ds))) t" by blast
        then show "\<not> endsWith ((acc @ d) @ concat (take k ds)) t" by simp
      qed
      with n m \<open>m \<noteq> 0\<close> show ?L by (intro exI [of _ m]) simp
    qed
    finally show ?thesis .
  qed
qed

lemma read_after_write:
  "write_conn m c = Inr c' \<Longrightarrow> read c' evs = read c evs"
  by (auto simp: write_conn_def read_def split: option.splits)

text \<open>
  Claim C6. On a connection with a socket, \<open>write\<close> hands the socket exactly the message
  followed by the one byte 0x04. When chunks of data arrive, \<open>read\<close> resolves exactly
  when, after some chunk, the accumulated text ends with the byte 0x04; it resolves with
  the text accumulated up to the first such chunk, which ends with that byte, and it is
  pending as long as no chunk has left the accumulated text ending with it.
\<close>

theorem framing:
  "write_conn m ((Connection client sid)\<lparr>socket := Some s\<rparr>)
     = Inr ((Connection client sid)\<lparr>socket := Some (s\<lparr>written := written s @ [m @ [CHR 0x04]]\<rparr>)\<rparr>) \<and>
   (read ((Connection client sid)\<lparr>socket := Some s\<rparr>) (map Data cs) = Resolved f \<longleftrightarrow>
      (\<exists>n. 0 < n \<and> n \<le> length cs \<and> f = concat (take n cs) \<and> endsWith f [CHR 0x04] \<and>
           (\<forall>k. 0 < k \<and> k < n \<longrightarrow> \<not> endsWith (concat (take k cs)) [CHR 0x04]))) \<and>
   (read ((Connection client sid)\<lparr>socket := Some s\<rparr>) (map Data cs) = Pending \<longleftrightarrow>
      (\<forall>n. 0 < n \<and> n \<le> length cs \<longrightarrow> \<not> endsWith (concat (take n cs)) [CHR 0x04])) \<and>
   (endsWith f [CHR 0x04] \<longleftrightarrow> f \<noteq> [] \<and> last f = CHR 0x04)"
proof (intro conjI)
  let ?c = "(Connection client sid)\<lparr>socket := Some s\<rparr>"
  let ?t = "[CHR 0x04]"
  show "write_conn m ?c
     = Inr ((Connection client sid)\<lparr>socket := Some (s\<lparr>written := written s @ [m @ [CHR 0x04]]\<rparr>)\<rparr>)"
    by (simp add: write_conn_def Connection_def)
  have rd: "read ?c (map Data cs) =
      (case first_frame ?t [] cs of None \<Rightarrow> Pending | Some g \<Rightarrow> Resolved g)"
    using read_data_only [of read_start ?t cs]
    by (simp add: read_def Connection_def read_start_def)
  show "read ?c (map Data cs) = Resolved f \<longleftrightarrow>
      (\<exists>n. 0 < n \<and> n \<le> length cs \<and> f = concat (take n cs) \<and> endsWith f ?t \<and>
           (\<forall>k. 0 < k \<and> k < n \<longrightarrow> \<not> endsWith (concat (take k cs)) ?t))"
  proof -
    have "read ?c (map Data cs) = Resolved f \<longleftrightarrow> first_frame ?t [] cs = Some f"
      using rd by (cases "first_frame ?t [] cs") simp_all
    then show ?thesis using first_frame_Some [of ?t "[]" cs f] by simp
  qed
  show "read ?c (map Data cs) = Pending \<longleftrightarrow>
      (\<forall>n. 0 < n \<and> n \<le> length cs \<longrightarrow> \<not> endsWith (concat (take n cs)) ?t)"
  proof
    assume "read ?c (map Data cs) = Pending"
    with rd have none: "first_frame ?t [] cs = None" by (simp split: option.splits)
    show "\<forall>n. 0 < n \<and> n \<le> length cs \<longrightarrow> \<not> endsWith (concat (take n cs)) ?t"
    proof (intro allI impI notI)
      fix n assume n: "0 < n \<and> n \<le> length cs" and e: "endsWith (concat (take n cs)) ?t"
      let ?P = "\<lambda>j. 0 < j \<and> j \<le> length cs \<and> endsWith (concat (take j cs)) ?t"
      define j where "j = (LEAST j. ?P j)"
      from n e have "?P n" by simp
      then have Pj: "?P j" unfolding j_def by (rule LeastI)
      have "\<forall>k. 0 < k \<and> k < j \<longrightarrow> \<not> endsWith (concat (take k cs)) ?t"
      proof (intro allI impI)
        fix k assume k: "0 < k \<and> k < j"
        then have "\<not> ?P k" unfolding j_def using not_less_Least by blast
        with k Pj show "\<not> endsWith (concat (take k cs)) ?t" by simp
      qed
      with Pj have "first_frame ?t [] cs = Some (concat (take j cs))"
        using first_frame_Some [of ?t "[]" cs "concat (take j cs)"] by auto
      with none show False by simp
    qed
  next
    assume all: "\<forall>n. 0 < n \<and> n \<le> length cs \<longrightarrow> \<not> endsWith (concat (take n cs)) ?t"
    have "first_frame ?t [] cs = None"
    proof (cases "first_frame ?t [] cs")
      case None
      then show ?thesis .
    next
      case (Some g)
      then obtain n where "0 < n \<and> n \<le> length cs" "g = concat (take n cs)" "endsWith g ?t"
        using first_frame_Some [of ?t "[]" cs g] by auto
      with all show ?thesis by blast
    qed
    with rd show "read ?c (map Data cs) = Pending" by simp
  qed
  show "endsWith f ?t \<longleftrightarrow> f \<noteq> [] \<and> last f = CHR 0x04"
    by (rule endsWith_single)
qed

theorem framing_witness:
  "write_conn ''get vn basic (id = 17)'' ((Connection ''app'' ''x1'')\<lparr>socket := Some
       \<lparr>authorized = True, socket_encoding = Some ''utf8'', written = [], end_requested = False\<rparr>\<rparr>)
     = Inr ((Connection ''app'' ''x1'')\<lparr>socket := Some
       \<lparr>authorized = True, socket_encoding = Some ''utf8'',
        written = [''get vn basic (id = 17)'' @ [CHR 0x04]], end_requested = False\<rparr>\<rparr>) \<and>
   read ((Connection ''app'' ''x1'')\<lparr>socket := Some
       \<lparr>authorized = True, socket_encoding = Some ''utf8'', written = [], end_requested = False\<rparr>\<rparr>)
     (map Data [''res'', ''ults {}'' @ [CHR 0x04], ''more''])
     = Resolved (''results {}'' @ [CHR 0x04]) \<and>
   read ((Connection ''app'' ''x1'')\<lparr>socket := Some
       \<lparr>authorized = True, socket_encoding = Some ''utf8'', written = [], end_requested = False\<rparr>\<rparr>)
     (map Data [[CHR 0x04] @ ''res'', ''ults''])
     = Pending"
proof -
  let ?s = "\<lparr>authorized = True, socket_encoding = Some ''utf8'', written = [], end_requested = False\<rparr>"
  let ?cs = "[''res'', ''ults {}'' @ [CHR 0x04], ''more'']"
  let ?ds = "[[CHR 0x04] @ ''res'', ''ults'']"
  note fr = framing [where client = "''app''" and sid = "''x1''" and s = ?s]
  have w: "write_conn ''get vn basic (id = 17)'' ((Connection ''app'' ''x1'')\<lparr>socket := Some ?s\<rparr>)
     = Inr ((Connection ''app'' ''x1'')\<lparr>socket := Some
       \<lparr>authorized = True, socket_encoding = Some ''utf8'',
        written = [''get vn basic (id = 17)'' @ [CHR 0x04]], end_requested = False\<rparr>\<rparr>)"
    using fr [where m = "''get vn basic (id = 17)''"] by simp
  have first: "\<forall>k. 0 < k \<and> k < (2::nat) \<longrightarrow> \<not> endsWith (concat (take k ?cs)) [CHR 0x04]"
  proof (intro allI impI)
    fix k :: nat assume "0 < k \<and> k < 2"
    then have "k = 1" by simp
    then show "\<not> endsWith (concat (take k ?cs)) [CHR 0x04]" by (simp add: endsWith_def)
  qed
  have "\<exists>n. 0 < n \<and> n \<le> length ?cs \<and> ''results {}'' @ [CHR 0x04] = concat (take n ?cs) \<and>
      endsWith (''results {}'' @ [CHR 0x04]) [CHR 0x04] \<and>
      (\<forall>k. 0 < k \<and> k < n \<longrightarrow> \<not> endsWith (concat (take k ?cs)) [CHR 0x04])"
    using first by (intro exI [of _ 2]) (simp add: endsWith_def)
  then have r: "read ((Connection ''app'' ''x1'')\<lparr>socket := Some ?s\<rparr>) (map Data ?cs)
     = Resolved (''results {}'' @ [CHR 0x04])"
    using fr [where cs = ?cs and f = "''results {}'' @ [CHR 0x04]"] by blast
  have "\<forall>n. 0 < n \<and> n \<le> length ?ds \<longrightarrow> \<not> endsWith (concat (take n ?ds)) [CHR 0x04]"
  proof (intro allI impI)
    fix n :: nat assume "0 < n \<and> n \<le> length ?ds"
    then have "n = 1 \<or> n = 2" by auto
    then show "\<not> endsWith (concat (take n ?ds)) [CHR 0x04]" by (auto simp: endsWith_def)
  qed
  then have p: "read ((Connection ''app'' ''x1'')\<lparr>socket := Some ?s\<rparr>) (map Data ?ds) = Pending"
    using fr [where cs = ?ds] by blast
  from w r p show ?thesis by blast
qed

subsection \<open>connect\<close>

lemma connect_settled_once:
  "settled k \<noteq> Pending \<Longrightarrow> settled (foldl (connect_event enc) k evs) = settled k"
proof (induction evs arbitrary: k)
  case Nil
  then show ?case by simp
next
  case (Cons ev evs)
  have "settled (connect_event enc k ev) = settled k"
    using Cons.prems by (cases ev; cases "settled k") (simp_all add: resolve_def reject_def)
  with Cons show ?case by simp
qed

lemma connect_quiet:
  "set pre \<subseteq> insert End (range Data) \<Longrightarrow> foldl (connect_event enc) k pre = k"
proof (induction pre)
  case Nil
  then show ?case by simp
next
  case (Cons ev pre)
  then show ?case by (cases ev) auto
qed

lemma connect_first:
  assumes "set pre \<subseteq> insert End (range Data)"
  shows "fst (connect (pre @ SecureConnect True # post) c) = Resolved ''ok''"
    and "fst (connect (pre @ SecureConnect False # post) c) = Rejected (Text UNAUTHORIZED_CONNECTION)"
    and "fst (connect (pre @ Error e # post) c) = Rejected (TransportError e)"
  using assms
  by (simp_all add: connect_def Let_def connect_quiet connect_settled_once connect_start_def
      resolve_def reject_def)

lemma connect_pending:
  "set evs \<subseteq> insert End (range Data) \<Longrightarrow> fst (connect evs c) = Pending"
  by (simp add: connect_def Let_def connect_quiet connect_start_def)

lemma event_split:
  "set evs \<subseteq> insert End (range Data) \<or>
   (\<exists>pre x post. evs = pre @ x # post \<and> set pre \<subseteq> insert End (range Data) \<and>
      ((\<exists>a. x = SecureConnect a) \<or> (\<exists>e. x = Error e)))"
proof (induction evs)
  case Nil
  then show ?case by simp
next
  case (Cons ev evs)
  show ?case
  proof (cases ev)
    case (SecureConnect a)
    then have "ev # evs = [] @ ev # evs \<and> set [] \<subseteq> insert End (range Data) \<and>
      ((\<exists>a. ev = SecureConnect a) \<or> (\<exists>e. ev = Error e))" by simp
    then show ?thesis by blast
  next
    case (Error e)
    then have "ev # evs = [] @ ev # evs \<and> set [] \<subseteq> insert End (range Data) \<and>
      ((\<exists>a. ev = SecureConnect a) \<or> (\<exists>e. ev = Error e))" by simp
    then show ?thesis by blast
  next
    case (Data d)
    from Cons.IH show ?thesis
    proof
      assume "set evs \<subseteq> insert End (range Data)"
      with Data show ?thesis by simp
    next
      assume "\<exists>pre x post. evs = pre @ x # post \<and> set pre \<subseteq> insert End (range Data) \<and>
        ((\<exists>a. x = SecureConnect a) \<or> (\<exists>e. x = Error e))"
      then obtain pre x post where *: "evs = pre @ x # post" "set pre \<subseteq> insert End (range Data)"
        "(\<exists>a. x = SecureConnect a) \<or> (\<exists>e. x = Error e)" by blast
      with Data have "ev # evs = (ev # pre) @ x # post \<and> set (ev # pre) \<subseteq> insert End (range Data)"
        by simp
      with *(3) show ?thesis by blast
    qed
  next
    case End
    from Cons.IH show ?thesis
    proof
      assume "set evs \<subseteq> insert End (range Data)"
      with End show ?thesis by simp
    next
      assume "\<exists>pre x post. evs = pre @ x # post \<and> set pre \<subseteq> insert End (range Data) \<and>
        ((\<exists>a. x = SecureConnect a) \<or> (\<exists>e. x = Error e))"
      then obtain pre x post where *: "evs = pre @ x # post" "set pre \<subseteq> insert End (range Data)"
        "(\<exists>a. x = SecureConnect a) \<or> (\<exists>e. x = Error e)" by blast
      with End have "ev # evs = (ev # pre) @ x # post \<and> set (ev # pre) \<subseteq> insert End (range Data)"
        by simp
      with *(3) show ?thesis by blast
    qed
  qed
qed

lemma connect_resolved_only_if:
  assumes "fst (connect evs c) = Resolved v"
  shows "v = ''ok'' \<and> (\<exists>pre post. evs = pre @ SecureConnect True # post \<and>
           set pre \<subseteq> insert End (range Data))"
proof -
  from event_split [of evs] show ?thesis
  proof
    assume "set evs \<subseteq> insert End (range Data)"
    then have "fst (connect evs c) = Pending" by (rule connect_pending)
    with assms show ?thesis by simp
  next
    assume "\<exists>pre x post. evs = pre @ x # post \<and> set pre \<subseteq> insert End (range Data) \<and>
        ((\<exists>a. x = SecureConnect a) \<or> (\<exists>e. x = Error e))"
    then obtain pre x post where *: "evs = pre @ x # post" "set pre \<subseteq> insert End (range Data)"
      "(\<exists>a. x = SecureConnect a) \<or> (\<exists>e. x = Error e)" by blast
    from *(3) show ?thesis
    proof
      assume "\<exists>a. x = SecureConnect a"
      then obtain a where a: "x = SecureConnect a" ..
      show ?thesis
      proof (cases a)
        case True
        with a * assms connect_first(1) [OF *(2), of post c] show ?thesis by auto
      next
        case False
        with a * assms connect_first(2) [OF *(2), of post c] show ?thesis by simp
      qed
    next
      assume "\<exists>e. x = Error e"
      then obtain e where "x = Error e" ..
      with * assms connect_first(3) [OF *(2), of e post c] show ?thesis by simp
    qed
  qed
qed

text \<open>
  Claim C3. \<open>connect\<close> resolves only if the handshake completes with the socket
  authorized, before any error: the events up to there are data or end events only.
  The first handshake event decides: a completed handshake with an authorized socket
  resolves with \<open>'ok'\<close>, a completed handshake with an unauthorized socket rejects with
  \<open>UNAUTHORIZED_CONNECTION\<close>, and a transport error rejects with that error.
\<close>

theorem connect_outcome:
  "(fst (connect evs c) = Resolved v \<longrightarrow>
      v = ''ok'' \<and> (\<exists>pre post. evs = pre @ SecureConnect True # post \<and>
                                  set pre \<subseteq> insert End (range Data))) \<and>
   (set pre \<subseteq> insert End (range Data) \<longrightarrow>
      fst (connect (pre @ SecureConnect True # post) c) = Resolved ''ok'' \<and>
      fst (connect (pre @ SecureConnect False # post) c) =
        Rejected (Text ''Secure connection could not be established'') \<and>
      fst (connect (pre @ Error e # post) c) = Rejected (TransportError e))"
  using connect_resolved_only_if connect_first
  by (simp add: UNAUTHORIZED_CONNECTION_def)

theorem connect_outcome_witness:
  "set [Data ''x''] \<subseteq> insert End (range Data) \<and>
   fst (connect ([Data ''x''] @ SecureConnect True # [Error ''late'']) (Connection ''app'' ''x1''))
     = Resolved ''ok'' \<and>
   fst (connect ([Data ''x''] @ SecureConnect False # []) (Connection ''app'' ''x1''))
     = Rejected (Text ''Secure connection could not be established'') \<and>
   fst (connect ([Data ''x''] @ Error ''ECONNREFUSED'' # [SecureConnect True]) (Connection ''app'' ''x1''))
     = Rejected (TransportError ''ECONNREFUSED'') \<and>
   (\<exists>pre post. [Data ''x'', SecureConnect True, Error ''late''] = pre @ SecureConnect True # post \<and>
      set pre \<subseteq> insert End (range Data))"
proof -
  have h: "set [Data ''x''] \<subseteq> insert End (range Data)" by simp
  have ok: "fst (connect ([Data ''x''] @ SecureConnect True # [Error ''late'']) (Connection ''app'' ''x1''))
     = Resolved ''ok''"
    using connect_outcome [where c = "Connection ''app'' ''x1''" and pre = "[Data ''x'']"
        and post = "[Error ''late'']"] h
    by blast
  have unauthorized: "fst (connect ([Data ''x''] @ SecureConnect False # []) (Connection ''app'' ''x1''))
     = Rejected (Text ''Secure connection could not be established'')"
    using connect_outcome [where c = "Connection ''app'' ''x1''" and pre = "[Data ''x'']"
        and post = "[]"] h
    by blast
  have transport: "fst (connect ([Data ''x''] @ Error ''ECONNREFUSED'' # [SecureConnect True]) (Connection ''app'' ''x1''))
     = Rejected (TransportError ''ECONNREFUSED'')"
    using connect_outcome [where c = "Connection ''app'' ''x1''" and pre = "[Data ''x'']"
        and e = "''ECONNREFUSED''" and post = "[SecureConnect True]"] h
    by blast
  from ok have "fst (connect [Data ''x'', SecureConnect True, Error ''late''] (Connection ''app'' ''x1''))
     = Resolved ''ok''" by simp
  then have only_if: "\<exists>pre post. [Data ''x'', SecureConnect True, Error ''late''] = pre @ SecureConnect True # post \<and>
      set pre \<subseteq> insert End (range Data)"
    using connect_outcome [where c = "Connection ''app'' ''x1''" and v = "''ok''"
        and evs = "[Data ''x'', SecureConnect True, Error ''late'']"]
    by blast
  show ?thesis using h ok unauthorized transport only_if by blast
qed

subsection \<open>login\<close>

lemma login_result:
  "fst (login usr pwd version evs ((Connection client sid)\<lparr>socket := Some s\<rparr>)) =
     (case read ((Connection client sid)\<lparr>socket := Some s\<rparr>) evs of
        Resolved frame \<Rightarrow>
          if frame = ''ok'' @ [CHR 0x04] then Resolved frame else Rejected (Text frame)
      | Rejected err \<Rightarrow> Rejected err
      | Pending \<Rightarrow> Pending)"
proof -
  let ?c = "(Connection client sid)\<lparr>socket := Some s\<rparr>"
  let ?m = "''login '' @ JSON_stringify (login_data ?c version usr pwd) replacer"
  obtain c' where w: "write_conn ?m ?c = Inr c'" and e: "eot c' = [CHR 0x04]"
    by (simp add: write_conn_def Connection_def)
  have r: "read c' evs = read ?c evs" using w by (rule read_after_write)
  show ?thesis
    using w e r
    by (cases "read ?c evs") (simp_all add: login_def Let_def resolve_def reject_def)
qed

text \<open>
  Claim C4. On a connection with a socket, \<open>login\<close> resolves if and only if \<open>read\<close>
  resolves with exactly \<open>ok\<close> followed by the byte 0x04, and it resolves with that frame;
  when \<open>read\<close> resolves with any other frame, \<open>login\<close> rejects with that frame as
  it was received.
\<close>

theorem login_acknowledgment:
  "(fst (login usr pwd version evs ((Connection client sid)\<lparr>socket := Some s\<rparr>)) = Resolved v
      \<longleftrightarrow> v = ''ok'' @ [CHR 0x04] \<and>
          read ((Connection client sid)\<lparr>socket := Some s\<rparr>) evs = Resolved (''ok'' @ [CHR 0x04])) \<and>
   (read ((Connection client sid)\<lparr>socket := Some s\<rparr>) evs = Resolved frame \<and>
    frame \<noteq> ''ok'' @ [CHR 0x04] \<longrightarrow>
      fst (login usr pwd version evs ((Connection client sid)\<lparr>socket := Some s\<rparr>))
        = Rejected (Text frame))"
proof (intro conjI impI)
  let ?c = "(Connection client sid)\<lparr>socket := Some s\<rparr>"
  show "fst (login usr pwd version evs ?c) = Resolved v
      \<longleftrightarrow> v = ''ok'' @ [CHR 0x04] \<and> read ?c evs = Resolved (''ok'' @ [CHR 0x04])"
    by (cases "read ?c evs") (auto simp: login_result)
next
  let ?c = "(Connection client sid)\<lparr>socket := Some s\<rparr>"
  assume "read ?c evs = Resolved frame \<and> frame \<noteq> ''ok'' @ [CHR 0x04]"
  then show "fst (login usr pwd version evs ?c) = Rejected (Text frame)"
    by (simp add: login_result)
qed

theorem login_acknowledgment_witness:
  "read ((Connection ''app'' ''x1'')\<lparr>socket := Some
       \<lparr>authorized = True, socket_encoding = Some ''utf8'', written = [], end_requested = False\<rparr>\<rparr>)
     [Data ''error bad credentials'', Data [CHR 0x04]]
     = Resolved (''error bad credentials'' @ [CHR 0x04]) \<and>
   ''error bad credentials'' @ [CHR 0x04] \<noteq> ''ok'' @ [CHR 0x04] \<and>
   fst (login (JStr ''u'') (JStr ''p'') ''1.0.0'' [Data ''error bad credentials'', Data [CHR 0x04]]
     ((Connection ''app'' ''x1'')\<lparr>socket := Some
       \<lparr>authorized = True, socket_encoding = Some ''utf8'', written = [], end_requested = False\<rparr>\<rparr>))
     = Rejected (Text (''error bad credentials'' @ [CHR 0x04])) \<and>
   fst (login (JStr ''u'') (JStr ''p'') ''1.0.0'' [Data ''o'', Data (''k'' @ [CHR 0x04])]
     ((Connection ''app'' ''x1'')\<lparr>socket := Some
       \<lparr>authorized = True, socket_encoding = Some ''utf8'', written = [], end_requested = False\<rparr>\<rparr>))
     = Resolved (''ok'' @ [CHR 0x04])"
proof -
  let ?s = "\<lparr>authorized = True, socket_encoding = Some ''utf8'', written = [], end_requested = False\<rparr>"
  let ?c = "(Connection ''app'' ''x1'')\<lparr>socket := Some ?s\<rparr>"
  note ack = login_acknowledgment [where client = "''app''" and sid = "''x1''" and s = ?s
      and usr = "JStr ''u''" and pwd = "JStr ''p''" and version = "''1.0.0''"]
  have bad: "read ?c [Data ''error bad credentials'', Data [CHR 0x04]]
      = Resolved (''error bad credentials'' @ [CHR 0x04])"
    by (simp add: read_def Connection_def read_start_def endsWith_def resolve_def Let_def)
  have ne: "''error bad credentials'' @ [CHR 0x04] \<noteq> ''ok'' @ [CHR 0x04]" by simp
  have good: "read ?c [Data ''o'', Data (''k'' @ [CHR 0x04])] = Resolved (''ok'' @ [CHR 0x04])"
    by (simp add: read_def Connection_def read_start_def endsWith_def resolve_def Let_def)
  have "fst (login (JStr ''u'') (JStr ''p'') ''1.0.0'' [Data ''error bad credentials'', Data [CHR 0x04]] ?c)
      = Rejected (Text (''error bad credentials'' @ [CHR 0x04]))"
    using ack [where evs = "[Data ''error bad credentials'', Data [CHR 0x04]]"
        and frame = "''error bad credentials'' @ [CHR 0x04]"] bad ne by blast
  moreover have "fst (login (JStr ''u'') (JStr ''p'') ''1.0.0'' [Data ''o'', Data (''k'' @ [CHR 0x04])] ?c)
      = Resolved (''ok'' @ [CHR 0x04])"
    using ack [where evs = "[Data ''o'', Data (''k'' @ [CHR 0x04])]" and v = "''ok'' @ [CHR 0x04]"] good
    by blast
  ultimately show ?thesis using bad ne by blast
qed

text \<open>
  Claim C5. The text \<open>login\<close> serializes always holds the fields \<open>protocol\<close> (1),
  \<open>client\<close> (the socket id) and \<open>clientver\<close> (the version), then the field
  \<open>username\<close> exactly when the username is neither \<open>undefined\<close> nor \<open>null\<close>, then
  the field \<open>password\<close> under the same condition; an absent credential adds nothing to
  the text, in particular no \<open>null\<close>. \<open>login\<close> writes this text after \<open>login \<close>,
  followed by the byte 0x04.
\<close>

theorem login_payload:
  "JSON_stringify (login_data c version usr pwd) replacer =
     ''{'' @ JSON_quote ''protocol'' @ '':1,'' @
     JSON_quote ''client'' @ '':'' @ JSON_quote (socketID c) @ '','' @
     JSON_quote ''clientver'' @ '':'' @ JSON_quote version @
     (case usr of
        JStr u \<Rightarrow> '','' @ JSON_quote ''username'' @ '':'' @ JSON_quote u
      | JNum n \<Rightarrow> '','' @ JSON_quote ''username'' @ '':'' @ show_int n
      | _ \<Rightarrow> []) @
     (case pwd of
        JStr p \<Rightarrow> '','' @ JSON_quote ''password'' @ '':'' @ JSON_quote p
      | JNum n \<Rightarrow> '','' @ JSON_quote ''password'' @ '':'' @ show_int n
      | _ \<Rightarrow> []) @
     ''}'' \<and>
   snd (login usr pwd version evs ((Connection client sid)\<lparr>socket := Some s\<rparr>)) =
     (Connection client sid)\<lparr>socket := Some (s\<lparr>written := written s @
        [''login '' @
         JSON_stringify (login_data (Connection client sid) version usr pwd) replacer @
         [CHR 0x04]]\<rparr>)\<rparr>"
proof
  have one: "show_int 1 = ''1''" by (simp add: show_int_def)
  show "JSON_stringify (login_data c version usr pwd) replacer =
     ''{'' @ JSON_quote ''protocol'' @ '':1,'' @
     JSON_quote ''client'' @ '':'' @ JSON_quote (socketID c) @ '','' @
     JSON_quote ''clientver'' @ '':'' @ JSON_quote version @
     (case usr of
        JStr u \<Rightarrow> '','' @ JSON_quote ''username'' @ '':'' @ JSON_quote u
      | JNum n \<Rightarrow> '','' @ JSON_quote ''username'' @ '':'' @ show_int n
      | _ \<Rightarrow> []) @
     (case pwd of
        JStr p \<Rightarrow> '','' @ JSON_quote ''password'' @ '':'' @ JSON_quote p
      | JNum n \<Rightarrow> '','' @ JSON_quote ''password'' @ '':'' @ show_int n
      | _ \<Rightarrow> []) @
     ''}''"
    by (cases usr; cases pwd)
      (simp_all add: JSON_stringify_def login_data_def List.map_filter_simps replacer_def one
        del: show_nat.simps)
next
  let ?c = "(Connection client sid)\<lparr>socket := Some s\<rparr>"
  have d: "login_data ?c version usr pwd
      = login_data (Connection client sid) version usr pwd"
    by (simp add: login_data_def)
  show "snd (login usr pwd version evs ?c) =
     (Connection client sid)\<lparr>socket := Some (s\<lparr>written := written s @
        [''login '' @
         JSON_stringify (login_data (Connection client sid) version usr pwd) replacer @
         [CHR 0x04]]\<rparr>)\<rparr>"
    unfolding login_def Let_def d
    by (cases "read ((Connection client sid)\<lparr>socket := Some (s\<lparr>written := written s @
        [''login '' @
         JSON_stringify (login_data (Connection client sid) version usr pwd) replacer @
         [CHR 0x04]]\<rparr>)\<rparr>) evs")
      (simp_all add: write_conn_def Connection_def)
qed

theorem login_payload_witness:
  "JSON_stringify (login_data (Connection ''app'' ''x1'') ''1.0.0'' (JStr ''u'') JNull) replacer =
     ''{'' @ [CHR 0x22] @ ''protocol'' @ [CHR 0x22] @ '':1,'' @
     [CHR 0x22] @ ''client'' @ [CHR 0x22] @ '':'' @ [CHR 0x22] @ ''vndbjs-app-x1'' @ [CHR 0x22] @ '','' @
     [CHR 0x22] @ ''clientver'' @ [CHR 0x22] @ '':'' @ [CHR 0x22] @ ''1.0.0'' @ [CHR 0x22] @ '','' @
     [CHR 0x22] @ ''username'' @ [CHR 0x22] @ '':'' @ [CHR 0x22] @ ''u'' @ [CHR 0x22] @ ''}'' \<and>
   JSON_stringify (login_data (Connection ''app'' ''x1'') ''1.0.0'' JUndefined JNull) replacer =
     ''{'' @ [CHR 0x22] @ ''protocol'' @ [CHR 0x22] @ '':1,'' @
     [CHR 0x22] @ ''client'' @ [CHR 0x22] @ '':'' @ [CHR 0x22] @ ''vndbjs-app-x1'' @ [CHR 0x22] @ '','' @
     [CHR 0x22] @ ''clientver'' @ [CHR 0x22] @ '':'' @ [CHR 0x22] @ ''1.0.0'' @ [CHR 0x22] @ ''}''"
  using login_payload [where c = "Connection ''app'' ''x1''" and version = "''1.0.0''"
      and usr = "JStr ''u''" and pwd = JNull]
    login_payload [where c = "Connection ''app'' ''x1''" and version = "''1.0.0''"
      and usr = JUndefined and pwd = JNull]
  by (simp add: JSON_quote_def quote_char_def Connection_def)

subsection \<open>destroy\<close>

lemma destroy_no_end:
  "End \<notin> set evs \<Longrightarrow> foldl destroy_event (p, b) evs = (p, b)"
proof (induction evs)
  case Nil
  then show ?case by simp
next
  case (Cons ev evs)
  then show ?case by (cases ev) simp_all
qed

lemma destroy_settled_once:
  "p \<noteq> Pending \<Longrightarrow> fst (foldl destroy_event (p, b) evs) = p"
proof (induction evs arbitrary: b)
  case Nil
  then show ?case by simp
next
  case (Cons ev evs)
  then show ?case by (cases ev; cases p) (simp_all add: resolve_def)
qed

lemma destroy_end:
  "End \<in> set evs \<Longrightarrow> fst (foldl destroy_event (Pending, True) evs) = Resolved ''ok''"
proof -
  assume "End \<in> set evs"
  then obtain pre post where split: "evs = pre @ End # post" "End \<notin> set pre"
    by (meson split_list_first)
  then have "foldl destroy_event (Pending, True) evs
      = foldl destroy_event (Resolved ''ok'', False) post"
    by (simp add: destroy_no_end resolve_def)
  then show ?thesis by (simp add: destroy_settled_once)
qed

text \<open>
  Claim C7. With no socket \<open>destroy\<close> rejects with \<open>NO_CONNECTION\<close>. With a socket it
  calls \<open>socket.end()\<close>, resolves with \<open>'ok'\<close> exactly when the peer's \<open>end\<close> event
  arrives, and stays pending until then.
\<close>

theorem destroy_outcome:
  "(socket c = None \<longrightarrow> fst (destroy evs c) = Rejected (Text ''No connection to destroy'')) \<and>
   (socket c = Some s \<longrightarrow>
      socket (snd (destroy evs c)) = Some (s\<lparr>end_requested := True\<rparr>) \<and>
      (fst (destroy evs c) = Resolved ''ok'' \<longleftrightarrow> End \<in> set evs) \<and>
      (End \<notin> set evs \<longrightarrow> fst (destroy evs c) = Pending))"
proof (intro conjI impI)
  assume "socket c = None"
  then show "fst (destroy evs c) = Rejected (Text ''No connection to destroy'')"
    by (simp add: destroy_def reject_def NO_CONNECTION_def)
next
  assume "socket c = Some s"
  then show "socket (snd (destroy evs c)) = Some (s\<lparr>end_requested := True\<rparr>)"
    by (simp add: destroy_def)
next
  assume s: "socket c = Some s"
  show "fst (destroy evs c) = Resolved ''ok'' \<longleftrightarrow> End \<in> set evs"
  proof (cases "End \<in> set evs")
    case True
    with s show ?thesis by (simp add: destroy_def destroy_end)
  next
    case False
    with s show ?thesis by (simp add: destroy_def destroy_no_end)
  qed
next
  assume "socket c = Some s" "End \<notin> set evs"
  then show "fst (destroy evs c) = Pending"
    by (simp add: destroy_def destroy_no_end)
qed

theorem destroy_outcome_witness:
  "socket (Connection ''app'' ''x1'') = None \<and>
   fst (destroy [End] (Connection ''app'' ''x1'')) = Rejected (Text ''No connection to destroy'') \<and>
   socket (snd (connect [SecureConnect True] (Connection ''app'' ''x1'')))
     = Some \<lparr>authorized = True, socket_encoding = Some ''utf8'', written = [], end_requested = False\<rparr> \<and>
   End \<in> set [Data ''bye'', End] \<and>
   fst (destroy [Data ''bye'', End] (snd (connect [SecureConnect True] (Connection ''app'' ''x1''))))
     = Resolved ''ok'' \<and>
   End \<notin> set [Data ''bye''] \<and>
   fst (destroy [Data ''bye''] (snd (connect [SecureConnect True] (Connection ''app'' ''x1''))))
     = Pending"
proof -
  let ?c = "snd (connect [SecureConnect True] (Connection ''app'' ''x1''))"
  let ?s = "\<lparr>authorized = True, socket_encoding = Some ''utf8'', written = [], end_requested = False\<rparr>"
  have none: "socket (Connection ''app'' ''x1'') = None" by (simp add: Connection_def)
  have some: "socket ?c = Some ?s"
    by (simp add: connect_def connect_start_def Connection_def resolve_def)
  have e1: "End \<in> set [Data ''bye'', End]" by simp
  have e2: "End \<notin> set [Data ''bye'']" by simp
  have "fst (destroy [End] (Connection ''app'' ''x1'')) = Rejected (Text ''No connection to destroy'')"
    using destroy_outcome [where c = "Connection ''app'' ''x1''" and evs = "[End]"] none by blast
  moreover have "fst (destroy [Data ''bye'', End] ?c) = Resolved ''ok''"
    using destroy_outcome [where c = ?c and s = ?s and evs = "[Data ''bye'', End]"] some e1 by blast
  moreover have "fst (destroy [Data ''bye''] ?c) = Pending"
    using destroy_outcome [where c = ?c and s = ?s and evs = "[Data ''bye'']"] some e2 by blast
  ultimately show ?thesis using none some e1 e2 by blast
qed

section \<open>Properties of Vndb\<close>

subsection \<open>The constructor and the pool\<close>

lemma defaults_apply:
  "JUndefined \<notin> snd ` set defs \<Longrightarrow>
   defaults obj defs key =
     (if obj key = JUndefined
      then (case map_of defs key of None \<Rightarrow> JUndefined | Some v \<Rightarrow> v)
      else obj key)"
proof (induction defs arbitrary: obj)
  case Nil
  then show ?case by simp
next
  case (Cons kv defs)
  obtain k v where kv: "kv = (k, v)" by (cases kv)
  from Cons.prems have "JUndefined \<notin> snd ` set defs" "v \<noteq> JUndefined"
    unfolding kv by auto
  then show ?case unfolding kv defaults.simps using Cons.IH by (auto split: option.splits)
qed

text \<open>
  Claim C10. For every settings object, each of the six settings that the object leaves
  out (that reads as \<open>undefined\<close>) gets its default: \<open>rateLimit\<close> 20,
  \<open>rateInterval\<close> 60000, \<open>username\<close> and \<open>password\<close> \<open>null\<close>, \<open>poolMin\<close> 1 (the
  pool's \<open>min\<close>) and \<open>poolTimeout\<close> 30000 (the pool's \<open>softIdleTimeoutMillis\<close>); a
  setting the object supplies is kept as it is. The limiter is built from the resulting
  \<open>rateLimit\<close> and \<open>rateInterval\<close>, and a constructor called without settings
  behaves as with the empty object.
\<close>

theorem constructor_defaults:
  "rateLimit (Vndb name (Some settings)) =
     (if settings ''rateLimit'' = JUndefined then JNum 20 else settings ''rateLimit'') \<and>
   rateInterval (Vndb name (Some settings)) =
     (if settings ''rateInterval'' = JUndefined then JNum 60000 else settings ''rateInterval'') \<and>
   username (Vndb name (Some settings)) =
     (if settings ''username'' = JUndefined then JNull else settings ''username'') \<and>
   password (Vndb name (Some settings)) =
     (if settings ''password'' = JUndefined then JNull else settings ''password'') \<and>
   min_cfg (poolConfig (Vndb name (Some settings))) =
     (if settings ''poolMin'' = JUndefined then JNum 1 else settings ''poolMin'') \<and>
   softIdleTimeoutMillis (poolConfig (Vndb name (Some settings))) =
     (if settings ''poolTimeout'' = JUndefined then JNum 30000 else settings ''poolTimeout'') \<and>
   limiter (Vndb name (Some settings)) =
     (rateLimit (Vndb name (Some settings)), rateInterval (Vndb name (Some settings))) \<and>
   Vndb name None = Vndb name (Some empty_object)"
  by (simp add: Vndb_def Let_def defaults_apply defaultSettings_def empty_object_def)

theorem constructor_defaults_witness:
  "rateLimit (Vndb ''app'' (Some (empty_object(''poolMin'' := JNum 2)))) = JNum 20 \<and>
   rateInterval (Vndb ''app'' (Some (empty_object(''poolMin'' := JNum 2)))) = JNum 60000 \<and>
   username (Vndb ''app'' (Some (empty_object(''poolMin'' := JNum 2)))) = JNull \<and>
   password (Vndb ''app'' (Some (empty_object(''poolMin'' := JNum 2)))) = JNull \<and>
   min_cfg (poolConfig (Vndb ''app'' (Some (empty_object(''poolMin'' := JNum 2))))) = JNum 2 \<and>
   softIdleTimeoutMillis (poolConfig (Vndb ''app'' (Some (empty_object(''poolMin'' := JNum 2)))))
     = JNum 30000"
  using constructor_defaults [where name = "''app''" and settings = "empty_object(''poolMin'' := JNum 2)"]
  by (simp add: empty_object_def)

lemma length_remove1_member:
  "s \<in> set xs \<Longrightarrow> Suc (length (remove1 s xs)) = length xs"
  by (induction xs) auto

lemma pool_invariant:
  "pool_reachable minimum maximum p \<Longrightarrow> distinct (idle p @ in_use p) \<and> pool_size p \<le> maximum"
proof (induction rule: pool_reachable.induct)
  case start
  show ?case by (simp add: pool_start_def pool_size_def)
next
  case (acquire p created)
  then show ?case
    by (cases "idle p"; cases created)
      (auto simp: pool_acquire_def pool_size_def)
next
  case (release p s)
  from release.hyps(2) have "Suc (length (remove1 s (in_use p))) = length (in_use p)"
    by (rule length_remove1_member)
  then have "pool_size (pool_release s p) = pool_size p"
    using release.hyps(2) by (simp add: pool_release_def pool_size_def)
  moreover have "distinct (idle (pool_release s p) @ in_use (pool_release s p))"
    using release by (auto simp: pool_release_def)
  ultimately show ?case using release.IH by simp
next
  case (destroy p s)
  then show ?case
    by (auto simp: pool_destroy_def pool_size_def length_remove1)
next
  case (evict p s)
  then show ?case
    by (auto simp: pool_evict_def pool_size_def length_remove1)
next
  case (top_up p s)
  then show ?case
    by (auto simp: pool_top_up_def pool_size_def)
next
  case (drain p)
  then show ?case
    by (auto simp: pool_drain_def pool_size_def)
qed

text \<open>
  Claim C8. Whatever settings are given, the pool's \<open>max\<close> is 10; and in every state
  the pool reaches with that maximum, the idle sessions and the sessions in use together
  number at most 10 and no session is both idle and in use (nor held twice).
\<close>

theorem pool_bound:
  "max_cfg (poolConfig (Vndb name settings)) = 10 \<and>
   (pool_reachable minimum (max_cfg (poolConfig (Vndb name settings))) p \<longrightarrow>
      card (set (idle p)) + card (set (in_use p)) \<le> 10 \<and>
      set (idle p) \<inter> set (in_use p) = {} \<and>
      pool_size p \<le> 10 \<and> distinct (idle p) \<and> distinct (in_use p))"
proof (intro conjI impI)
  show m: "max_cfg (poolConfig (Vndb name settings)) = 10"
    by (simp add: Vndb_def Let_def)
  assume "pool_reachable minimum (max_cfg (poolConfig (Vndb name settings))) p"
  then have inv: "distinct (idle p @ in_use p) \<and> pool_size p \<le> 10"
    using pool_invariant [of minimum 10 p] m by simp
  then show "set (idle p) \<inter> set (in_use p) = {}" "pool_size p \<le> 10"
    "distinct (idle p)" "distinct (in_use p)"
    by simp_all
  from inv have "card (set (idle p)) = length (idle p)" "card (set (in_use p)) = length (in_use p)"
    by (simp_all add: distinct_card)
  with inv show "card (set (idle p)) + card (set (in_use p)) \<le> 10"
    by (simp add: pool_size_def)
qed

theorem pool_bound_witness:
  "pool_reachable 1 (max_cfg (poolConfig (Vndb ''app'' None)))
     \<lparr>idle = [0::nat], in_use = [1], closed = False\<rparr> \<and>
   card (set (idle \<lparr>idle = [0::nat], in_use = [1], closed = False\<rparr>)) +
     card (set (in_use \<lparr>idle = [0::nat], in_use = [1], closed = False\<rparr>)) \<le> 10 \<and>
   set (idle \<lparr>idle = [0::nat], in_use = [1], closed = False\<rparr>) \<inter>
     set (in_use \<lparr>idle = [0::nat], in_use = [1], closed = False\<rparr>) = {}"
proof -
  let ?m = "max_cfg (poolConfig (Vndb ''app'' None))"
  have m: "?m = 10" by (simp add: Vndb_def Let_def)
  have "pool_reachable 1 ?m (pool_start :: nat pool)" by (rule pool_reachable.start)
  then have "pool_reachable 1 ?m (snd (pool_acquire ?m (Inr (0::nat)) pool_start))"
    by (rule pool_reachable.acquire) (simp add: pool_start_def)
  then have p1: "pool_reachable 1 ?m \<lparr>idle = [], in_use = [0::nat], closed = False\<rparr>"
    by (simp add: pool_acquire_def pool_start_def pool_size_def m)
  then have "pool_reachable 1 ?m
      (snd (pool_acquire ?m (Inr (1::nat)) \<lparr>idle = [], in_use = [0::nat], closed = False\<rparr>))"
    by (rule pool_reachable.acquire) simp
  then have p2: "pool_reachable 1 ?m \<lparr>idle = [], in_use = [0::nat, 1], closed = False\<rparr>"
    by (simp add: pool_acquire_def pool_size_def m)
  have "pool_reachable 1 ?m (pool_release 0 \<lparr>idle = [], in_use = [0::nat, 1], closed = False\<rparr>)"
    using p2 by (rule pool_reachable.release) simp
  then have p3: "pool_reachable 1 ?m \<lparr>idle = [0::nat], in_use = [1], closed = False\<rparr>"
    by (simp add: pool_release_def)
  with pool_bound [where name = "''app''" and settings = None and minimum = 1
      and p = "\<lparr>idle = [0::nat], in_use = [1], closed = False\<rparr>"]
  show ?thesis by blast
qed

subsection \<open>send\<close>

lemma acquire_checks_out:
  "pool_acquire maximum created p = (Inr s, q) \<Longrightarrow> s \<in> set (in_use q)"
  by (auto simp: pool_acquire_def split: if_splits list.splits sum.splits)

lemma release_returns_to_idle:
  "s \<in> set (in_use q) \<Longrightarrow> s \<in> set (idle (pool_release s q))"
  by (simp add: pool_release_def)

lemma send_acquired:
  assumes "pool_acquire (max_cfg (poolConfig v)) created (pool st) = (Inr client, p)"
  shows "send v message True created evs st =
     (case write_conn message (heap st client) of
        Inl thrown \<Rightarrow>
          \<lparr> response = Rejected thrown,
            after = st\<lparr>pool := pool_release client p\<rparr>,
            calls = [Acquire, Release client],
            unhandled = None \<rparr>
      | Inr c \<Rightarrow>
          (case read c evs of
             Pending \<Rightarrow>
               \<lparr> response = Pending,
                 after = \<lparr> pool = p, heap = (heap st)(client := c) \<rparr>,
                 calls = [Acquire],
                 unhandled = None \<rparr>
           | Resolved text \<Rightarrow>
               \<lparr> response = Resolved text,
                 after = \<lparr> pool = pool_release client p, heap = (heap st)(client := c) \<rparr>,
                 calls = [Acquire, Release client],
                 unhandled = None \<rparr>
           | Rejected err \<Rightarrow>
               \<lparr> response = Rejected err,
                 after = \<lparr> pool = pool_release client p, heap = (heap st)(client := c) \<rparr>,
                 calls = [Acquire, Release client],
                 unhandled = None \<rparr>))"
  using assms by (simp add: send_def resolve_def reject_def split: sum.splits promise.splits)

text \<open>
  Claim C1. Once \<open>send\<close> has acquired a client from the pool, every way the exchange
  ends (\<open>write\<close> throws, \<open>read\<close> resolves with a response, \<open>read\<close> rejects with an
  error) goes through the \<open>finally\<close> block: \<open>send\<close> calls \<open>release\<close> with that
  client, once, after \<open>acquire\<close>, the pool is the one \<open>release\<close> leaves, and no error
  escapes the callback.
\<close>

theorem send_releases:
  assumes "pool_acquire (max_cfg (poolConfig v)) created (pool st) = (Inr client, p)"
    and "response (send v message True created evs st) \<noteq> Pending"
  shows "calls (send v message True created evs st) = [Acquire, Release client] \<and>
         pool (after (send v message True created evs st)) = pool_release client p \<and>
         unhandled (send v message True created evs st) = None"
  using assms(2) unfolding send_acquired [OF assms(1)]
  by (auto split: sum.splits promise.splits)

theorem send_releases_witness:
  "pool_acquire (max_cfg (poolConfig (Vndb ''app'' None))) (Inl AcquireTimeout)
     (pool \<lparr>pool = \<lparr>idle = [0], in_use = [], closed = False\<rparr>,
        heap = (\<lambda>r. (Connection ''app'' ''x1'')\<lparr>socket := Some
          \<lparr>authorized = True, socket_encoding = Some ''utf8'', written = [],
           end_requested = False\<rparr>\<rparr>)\<rparr>)
     = (Inr 0, \<lparr>idle = [], in_use = [0], closed = False\<rparr>) \<and>
   response (send (Vndb ''app'' None) ''get vn basic (id = 17)'' True (Inl AcquireTimeout)
       [Data ''results {}'', Data [CHR 0x04]]
       \<lparr>pool = \<lparr>idle = [0], in_use = [], closed = False\<rparr>,
        heap = (\<lambda>r. (Connection ''app'' ''x1'')\<lparr>socket := Some
          \<lparr>authorized = True, socket_encoding = Some ''utf8'', written = [],
           end_requested = False\<rparr>\<rparr>)\<rparr>)
     = Resolved (''results {}'' @ [CHR 0x04]) \<and>
   calls (send (Vndb ''app'' None) ''get vn basic (id = 17)'' True (Inl AcquireTimeout)
       [Data ''results {}'', Data [CHR 0x04]]
       \<lparr>pool = \<lparr>idle = [0], in_use = [], closed = False\<rparr>,
        heap = (\<lambda>r. (Connection ''app'' ''x1'')\<lparr>socket := Some
          \<lparr>authorized = True, socket_encoding = Some ''utf8'', written = [],
           end_requested = False\<rparr>\<rparr>)\<rparr>)
     = [Acquire, Release 0] \<and>
   response (send (Vndb ''app'' None) ''get vn basic (id = 17)'' True (Inl AcquireTimeout)
       [Data ''resu'', Error ''ECONNRESET'']
       \<lparr>pool = \<lparr>idle = [0], in_use = [], closed = False\<rparr>,
        heap = (\<lambda>r. (Connection ''app'' ''x1'')\<lparr>socket := Some
          \<lparr>authorized = True, socket_encoding = Some ''utf8'', written = [],
           end_requested = False\<rparr>\<rparr>)\<rparr>)
     = Rejected (TransportError ''ECONNRESET'') \<and>
   calls (send (Vndb ''app'' None) ''get vn basic (id = 17)'' True (Inl AcquireTimeout)
       [Data ''resu'', Error ''ECONNRESET'']
       \<lparr>pool = \<lparr>idle = [0], in_use = [], closed = False\<rparr>,
        heap = (\<lambda>r. (Connection ''app'' ''x1'')\<lparr>socket := Some
          \<lparr>authorized = True, socket_encoding = Some ''utf8'', written = [],
           end_requested = False\<rparr>\<rparr>)\<rparr>)
     = [Acquire, Release 0] \<and>
   pool (after (send (Vndb ''app'' None) ''get vn basic (id = 17)'' True (Inl AcquireTimeout)
       [Data ''resu'', Error ''ECONNRESET'']
       \<lparr>pool = \<lparr>idle = [0], in_use = [], closed = False\<rparr>,
        heap = (\<lambda>r. (Connection ''app'' ''x1'')\<lparr>socket := Some
          \<lparr>authorized = True, socket_encoding = Some ''utf8'', written = [],
           end_requested = False\<rparr>\<rparr>)\<rparr>))
     = pool_release 0 \<lparr>idle = [], in_use = [0], closed = False\<rparr>"
proof -
  let ?st = "\<lparr>pool = \<lparr>idle = [0], in_use = [], closed = False\<rparr>,
        heap = (\<lambda>r. (Connection ''app'' ''x1'')\<lparr>socket := Some
          \<lparr>authorized = True, socket_encoding = Some ''utf8'', written = [],
           end_requested = False\<rparr>\<rparr>)\<rparr>"
  have acq: "pool_acquire (max_cfg (poolConfig (Vndb ''app'' None))) (Inl AcquireTimeout) (pool ?st)
     = (Inr 0, \<lparr>idle = [], in_use = [0], closed = False\<rparr>)"
    by (simp add: pool_acquire_def)
  have ok: "response (send (Vndb ''app'' None) ''get vn basic (id = 17)'' True (Inl AcquireTimeout)
       [Data ''results {}'', Data [CHR 0x04]]
       ?st)
     = Resolved (''results {}'' @ [CHR 0x04])"
    by (simp add: send_def pool_acquire_def pool_release_def pool_size_def Vndb_def Let_def write_conn_def read_def read_start_def Connection_def endsWith_def resolve_def reject_def)
  have er: "response (send (Vndb ''app'' None) ''get vn basic (id = 17)'' True (Inl AcquireTimeout)
       [Data ''resu'', Error ''ECONNRESET'']
       ?st)
     = Rejected (TransportError ''ECONNRESET'')"
    by (simp add: send_def pool_acquire_def pool_release_def pool_size_def Vndb_def Let_def write_conn_def read_def read_start_def Connection_def endsWith_def resolve_def reject_def)
  from ok have ok': "response (send (Vndb ''app'' None) ''get vn basic (id = 17)'' True (Inl AcquireTimeout)
       [Data ''results {}'', Data [CHR 0x04]]
       ?st) \<noteq> Pending" by simp
  from er have er': "response (send (Vndb ''app'' None) ''get vn basic (id = 17)'' True (Inl AcquireTimeout)
       [Data ''resu'', Error ''ECONNRESET'']
       ?st) \<noteq> Pending" by simp
  show ?thesis
    using acq ok er send_releases [OF acq ok'] send_releases [OF acq er'] by simp
qed

text \<open>
  Claim C2, as amended. When the exchange of \<open>send\<close> fails with an error (\<open>write\<close>
  throws or \<open>read\<close> rejects), \<open>send\<close> hands the client to \<open>release\<close> as it does after
  a response: the session is returned to the idle set, not destroyed.
\<close>

theorem send_error_release:
  assumes "pool_acquire (max_cfg (poolConfig v)) created (pool st) = (Inr client, p)"
    and "response (send v message True created evs st) = Rejected err"
  shows "calls (send v message True created evs st) = [Acquire, Release client] \<and>
         pool (after (send v message True created evs st)) = pool_release client p \<and>
         client \<in> set (idle (pool (after (send v message True created evs st))))"
proof -
  from assms(1) have "client \<in> set (in_use p)" by (rule acquire_checks_out)
  then have "client \<in> set (idle (pool_release client p))" by (rule release_returns_to_idle)
  then show ?thesis
    using assms(2) unfolding send_acquired [OF assms(1)]
    by (auto split: sum.splits promise.splits)
qed

theorem send_error_release_witness:
  "pool_acquire (max_cfg (poolConfig (Vndb ''app'' None))) (Inr 7)
     (pool \<lparr>pool = \<lparr>idle = [], in_use = [], closed = False\<rparr>,
        heap = (\<lambda>r. Connection ''app'' ''x1'')\<rparr>)
     = (Inr 7, \<lparr>idle = [], in_use = [7], closed = False\<rparr>) \<and>
   response (send (Vndb ''app'' None) ''get vn basic (id = 17)'' True (Inr 7)
       [Data ''results {}'', Data [CHR 0x04]]
       \<lparr>pool = \<lparr>idle = [], in_use = [], closed = False\<rparr>,
        heap = (\<lambda>r. Connection ''app'' ''x1'')\<rparr>)
     = Rejected (TypeError ''write'') \<and>
   calls (send (Vndb ''app'' None) ''get vn basic (id = 17)'' True (Inr 7)
       [Data ''results {}'', Data [CHR 0x04]]
       \<lparr>pool = \<lparr>idle = [], in_use = [], closed = False\<rparr>,
        heap = (\<lambda>r. Connection ''app'' ''x1'')\<rparr>)
     = [Acquire, Release 7] \<and>
   7 \<in> set (idle (pool (after (send (Vndb ''app'' None) ''get vn basic (id = 17)'' True (Inr 7)
       [Data ''results {}'', Data [CHR 0x04]]
       \<lparr>pool = \<lparr>idle = [], in_use = [], closed = False\<rparr>,
        heap = (\<lambda>r. Connection ''app'' ''x1'')\<rparr>))))"
proof -
  let ?st = "\<lparr>pool = \<lparr>idle = [], in_use = [], closed = False\<rparr>,
        heap = (\<lambda>r. Connection ''app'' ''x1'')\<rparr>"
  have acq: "pool_acquire (max_cfg (poolConfig (Vndb ''app'' None))) (Inr 7) (pool ?st)
     = (Inr 7, \<lparr>idle = [], in_use = [7], closed = False\<rparr>)"
    by (simp add: pool_acquire_def pool_size_def Vndb_def Let_def)
  have er: "response (send (Vndb ''app'' None) ''get vn basic (id = 17)'' True (Inr 7)
       [Data ''results {}'', Data [CHR 0x04]]
       ?st)
     = Rejected (TypeError ''write'')"
    by (simp add: send_def pool_acquire_def pool_release_def pool_size_def Vndb_def Let_def write_conn_def read_def read_start_def Connection_def endsWith_def resolve_def reject_def)
  show ?thesis
    using acq er send_error_release [OF acq er] by blast
qed

text \<open>
  Claim C2 as stated fails: the client's socket emits an error while \<open>read\<close> waits, the
  promise of \<open>send\<close> rejects with it, and the session is in the idle set afterwards.
\<close>

theorem errored_session_back_in_idle:
  "response (send (Vndb ''app'' None) ''get vn basic (id = 17)'' True (Inl AcquireTimeout)
       [Error ''ECONNRESET'']
       \<lparr>pool = \<lparr>idle = [0], in_use = [], closed = False\<rparr>,
        heap = (\<lambda>r. (Connection ''app'' ''x1'')\<lparr>socket := Some
          \<lparr>authorized = True, socket_encoding = Some ''utf8'', written = [],
           end_requested = False\<rparr>\<rparr>)\<rparr>)
     = Rejected (TransportError ''ECONNRESET'') \<and>
   calls (send (Vndb ''app'' None) ''get vn basic (id = 17)'' True (Inl AcquireTimeout)
       [Error ''ECONNRESET'']
       \<lparr>pool = \<lparr>idle = [0], in_use = [], closed = False\<rparr>,
        heap = (\<lambda>r. (Connection ''app'' ''x1'')\<lparr>socket := Some
          \<lparr>authorized = True, socket_encoding = Some ''utf8'', written = [],
           end_requested = False\<rparr>\<rparr>)\<rparr>)
     = [Acquire, Release 0] \<and>
   idle (pool (after (send (Vndb ''app'' None) ''get vn basic (id = 17)'' True (Inl AcquireTimeout)
       [Error ''ECONNRESET'']
       \<lparr>pool = \<lparr>idle = [0], in_use = [], closed = False\<rparr>,
        heap = (\<lambda>r. (Connection ''app'' ''x1'')\<lparr>socket := Some
          \<lparr>authorized = True, socket_encoding = Some ''utf8'', written = [],
           end_requested = False\<rparr>\<rparr>)\<rparr>)))
     = [0] \<and>
   in_use (pool (after (send (Vndb ''app'' None) ''get vn basic (id = 17)'' True (Inl AcquireTimeout)
       [Error ''ECONNRESET'']
       \<lparr>pool = \<lparr>idle = [0], in_use = [], closed = False\<rparr>,
        heap = (\<lambda>r. (Connection ''app'' ''x1'')\<lparr>socket := Some
          \<lparr>authorized = True, socket_encoding = Some ''utf8'', written = [],
           end_requested = False\<rparr>\<rparr>)\<rparr>)))
     = []"
  by (simp add: send_def pool_acquire_def pool_release_def pool_size_def Vndb_def Let_def write_conn_def read_def read_start_def Connection_def endsWith_def resolve_def reject_def)

end
